theory Spec2Isabelle
  imports Main "HOL-Library.Word" "HOL-Library.Signed_Division" "HOL-Library.Multiset"
begin

unbundle bit_operations_syntax

section \<open>Machine types\<close>

text \<open>
  A Go \<^verbatim>\<open>byte\<close> is an 8-bit word. A Go \<^verbatim>\<open>int\<close> is taken at its 64-bit width (the
  width on every 64-bit platform): a 64-bit word whose arithmetic wraps, read as a signed
  number by \<open>sint\<close> and compared by the signed orders \<open><s\<close> and \<open>\<le>s\<close>.
  A Go \<^verbatim>\<open>string\<close> is a sequence of bytes, here a \<open>string\<close>.
\<close>

type_synonym byte = "8 word"
type_synonym go_int = "64 word"

definition len :: "'a list \<Rightarrow> go_int" where
  \<comment> \<open>\<^verbatim>\<open>len(xs)\<close>; a Go slice never holds more than \<open>2^63 - 1\<close> elements\<close>
  "len xs = of_nat (length xs)"

definition quo :: "go_int \<Rightarrow> go_int \<Rightarrow> go_int" where
  \<comment> \<open>Go's \<^verbatim>\<open>/\<close> on \<^verbatim>\<open>int\<close> for a non-zero divisor: the quotient truncated towards zero,
      wrapped to 64 bits\<close>
  "quo a b = word_of_int (sint a sdiv sint b)"

definition slice :: "'a list \<Rightarrow> go_int \<Rightarrow> go_int \<Rightarrow> 'a list option" where
  \<comment> \<open>\<^verbatim>\<open>xs[lo:hi]\<close>; \<open>None\<close> is the run-time panic for bounds out of range. Go checks
      \<open>hi\<close> against the capacity; the only caller has clamped \<open>hi\<close> to the length before.\<close>
  "slice xs lo hi =
     (if 0 \<le>s lo \<and> lo \<le>s hi \<and> hi \<le>s len xs
      then Some (take (nat (sint hi) - nat (sint lo)) (drop (nat (sint lo)) xs))
      else None)"

section \<open>SHA-256 and hexadecimal printing\<close>

text \<open>
  \<^verbatim>\<open>crypto/sha256.Sum256\<close> belongs to the Go standard library; it is written out here after
  FIPS 180-4 so that every term of the development is closed. \<open>Sprintf_x\<close> is
  \<^verbatim>\<open>fmt.Sprintf("%x", digest)\<close>: two lowercase hexadecimal digits for each byte.
\<close>

definition K256 :: "32 word list" where
  "K256 = [
    0x428A2F98, 0x71374491, 0xB5C0FBCF, 0xE9B5DBA5, 0x3956C25B, 0x59F111F1, 0x923F82A4, 0xAB1C5ED5,
    0xD807AA98, 0x12835B01, 0x243185BE, 0x550C7DC3, 0x72BE5D74, 0x80DEB1FE, 0x9BDC06A7, 0xC19BF174,
    0xE49B69C1, 0xEFBE4786, 0x0FC19DC6, 0x240CA1CC, 0x2DE92C6F, 0x4A7484AA, 0x5CB0A9DC, 0x76F988DA,
    0x983E5152, 0xA831C66D, 0xB00327C8, 0xBF597FC7, 0xC6E00BF3, 0xD5A79147, 0x06CA6351, 0x14292967,
    0x27B70A85, 0x2E1B2138, 0x4D2C6DFC, 0x53380D13, 0x650A7354, 0x766A0ABB, 0x81C2C92E, 0x92722C85,
    0xA2BFE8A1, 0xA81A664B, 0xC24B8B70, 0xC76C51A3, 0xD192E819, 0xD6990624, 0xF40E3585, 0x106AA070,
    0x19A4C116, 0x1E376C08, 0x2748774C, 0x34B0BCB5, 0x391C0CB3, 0x4ED8AA4A, 0x5B9CCA4F, 0x682E6FF3,
    0x748F82EE, 0x78A5636F, 0x84C87814, 0x8CC70208, 0x90BEFFFA, 0xA4506CEB, 0xBEF9A3F7, 0xC67178F2]"

definition init256 :: "32 word list" where
  "init256 = [0x6A09E667, 0xBB67AE85, 0x3C6EF372, 0xA54FF53A,
              0x510E527F, 0x9B05688C, 0x1F83D9AB, 0x5BE0CD19]"

definition rotr32 :: "nat \<Rightarrow> 32 word \<Rightarrow> 32 word" where
  "rotr32 n w = drop_bit n w OR push_bit (32 - n) w"

definition be32 :: "byte list \<Rightarrow> 32 word" where
  "be32 bs = foldl (\<lambda>acc b. push_bit 8 acc OR ucast b) 0 bs"

fun be_bytes :: "nat \<Rightarrow> nat \<Rightarrow> byte list" where
  "be_bytes 0 n = []"
| "be_bytes (Suc k) n = be_bytes k (n div 256) @ [of_nat n]"

fun chunks :: "nat \<Rightarrow> 'a list \<Rightarrow> 'a list list" where
  "chunks n [] = []"
| "chunks n xs = (if n = 0 then [xs] else take n xs # chunks n (drop n xs))"

definition pad256 :: "byte list \<Rightarrow> byte list" where
  "pad256 m = m @ [0x80] @ replicate ((119 - length m mod 64) mod 64) 0
                @ be_bytes 8 ((8 * length m) mod 2 ^ 64)"

definition sigma0 :: "32 word \<Rightarrow> 32 word" where
  "sigma0 x = rotr32 7 x XOR rotr32 18 x XOR drop_bit 3 x"

definition sigma1 :: "32 word \<Rightarrow> 32 word" where
  "sigma1 x = rotr32 17 x XOR rotr32 19 x XOR drop_bit 10 x"

fun schedule :: "nat \<Rightarrow> 32 word list \<Rightarrow> 32 word list" where
  "schedule 0 w = []"
| "schedule (Suc n) w =
     hd w # schedule n (tl w @ [sigma1 (w ! 14) + w ! 9 + sigma0 (w ! 1) + w ! 0])"

fun round256 :: "32 word list \<Rightarrow> 32 word \<times> 32 word \<Rightarrow> 32 word list" where
  "round256 [a, b, c, d, e, f, g, h] (k, w) =
     (let t1 = h + (rotr32 6 e XOR rotr32 11 e XOR rotr32 25 e)
                 + ((e AND f) XOR (NOT e AND g)) + k + w;
          t2 = (rotr32 2 a XOR rotr32 13 a XOR rotr32 22 a)
                 + ((a AND b) XOR (a AND c) XOR (b AND c))
      in [t1 + t2, a, b, c, d + t1, e, f, g])"
| "round256 s _ = s"

definition block256 :: "32 word list \<Rightarrow> byte list \<Rightarrow> 32 word list" where
  "block256 h blk =
     map2 (+) h (foldl round256 h (zip K256 (schedule 64 (map be32 (chunks 4 blk)))))"

definition Sum256 :: "byte list \<Rightarrow> byte list" where
  "Sum256 m =
     concat (map (\<lambda>w. be_bytes 4 (unat w)) (foldl block256 init256 (chunks 64 (pad256 m))))"

definition hexdigit :: "nat \<Rightarrow> char" where
  "hexdigit n = ''0123456789abcdef'' ! n"

definition Sprintf_x :: "byte list \<Rightarrow> string" where
  "Sprintf_x bs = concat (map (\<lambda>b. [hexdigit (unat b div 16), hexdigit (unat b mod 16)]) bs)"

section \<open>fragment.go\<close>

record Fragment =
  Hash :: string
  Data :: "byte list"
  Index :: go_int
  TotalFragments :: go_int
  Filename :: string

record FragmentManager =
  FragmentSize :: go_int

text \<open>
  Go errors are values built by \<^verbatim>\<open>fmt.Errorf\<close>; each message of the two source files is
  one constructor. Run-time panics are kept apart from them.
\<close>

datatype error =
    ErrorLeyendoArchivo
  | ErrorLeyendoDatos
  | NoHayFragmentos
  | FragmentosIncompletos go_int go_int
  | ErrorCreandoArchivo
  | ErrorEscribiendoFragmento
  | ErrorCodificandoMetadatos
  | ErrorGenerandoHash
  | ErrorAlmacenandoMetadatos

datatype panic =
    DivideByZero
  | MakesliceCapOutOfRange
  | SliceBoundsOutOfRange

datatype failure = Error error | Panic panic

subsection \<open>The file system\<close>

text \<open>
  The operating system is an external collaborator. A path names a regular file with its
  contents, a directory, or nothing; the device accepts \<open>space\<close> more bytes. Opening a
  missing path fails; reading a directory fails after a successful open; creating over a
  directory fails; a write beyond the free space is cut short and fails. Creating over a
  regular file empties it; the bytes it held are not counted back into \<open>space\<close>. Other causes
  of failure (permissions, a missing parent directory) are not modelled.
\<close>

datatype node = RegularFile "byte list" | Directory

record os_state =
  nodes :: "string \<rightharpoonup> node"
  space :: nat

definition os_Open :: "os_state \<Rightarrow> string \<Rightarrow> node option" where
  "os_Open os path = nodes os path"

definition io_ReadAll :: "node \<Rightarrow> byte list option" where
  "io_ReadAll f = (case f of RegularFile bs \<Rightarrow> Some bs | Directory \<Rightarrow> None)"

definition os_Create :: "os_state \<Rightarrow> string \<Rightarrow> os_state option" where
  "os_Create os path =
     (case nodes os path of
        Some Directory \<Rightarrow> None
      | _ \<Rightarrow> Some (os\<lparr>nodes := (nodes os)(path \<mapsto> RegularFile [])\<rparr>))"

definition contents :: "os_state \<Rightarrow> string \<Rightarrow> byte list" where
  "contents os path = (case nodes os path of Some (RegularFile bs) \<Rightarrow> bs | _ \<Rightarrow> [])"

definition file_Write :: "os_state \<Rightarrow> string \<Rightarrow> byte list \<Rightarrow> os_state \<times> bool" where
  \<comment> \<open>the second component tells whether the write failed\<close>
  "file_Write os path bs =
     (let written = take (space os) bs
      in (os\<lparr>nodes := (nodes os)(path \<mapsto> RegularFile (contents os path @ written)),
             space := space os - length written\<rparr>,
          space os < length bs))"

subsection \<open>FragmentFile\<close>

text \<open>
  The loop of lines 49 to 66, with the loop counter \<open>i\<close> and the slice built so far as
  arguments. \<^verbatim>\<open>i++\<close> cannot wrap, since \<open>i\<close> is below \<open>totalFragments\<close>.
\<close>

function FragmentFile_loop ::
  "FragmentManager \<Rightarrow> string \<Rightarrow> byte list \<Rightarrow> go_int \<Rightarrow> go_int \<Rightarrow> Fragment list
     \<Rightarrow> failure + Fragment list" where
  "FragmentFile_loop fm filename data totalFragments i fragments =
     (if i <s totalFragments then
        (let start = i * FragmentSize fm;
             end0 = start + FragmentSize fm;
             end = (if len data <s end0 then len data else end0)
         in case slice data start end of
              None \<Rightarrow> Inl (Panic SliceBoundsOutOfRange)
            | Some fragmentData \<Rightarrow>
                (let hash = Sprintf_x (Sum256 fragmentData);
                     fragment = \<lparr>Hash = hash, Data = fragmentData, Index = i,
                                 TotalFragments = totalFragments, Filename = filename\<rparr>
                 in FragmentFile_loop fm filename data totalFragments (i + 1)
                      (fragments @ [fragment])))
      else Inr fragments)"
  by pat_completeness auto
termination
proof (relation "measure (\<lambda>(fm, filename, data, totalFragments, i, fragments).
                   nat (sint totalFragments - sint i))")
  fix fm :: FragmentManager and filename :: string and data :: "byte list"
    and totalFragments i :: go_int and fragments :: "Fragment list" and fragment :: Fragment
  assume "i <s totalFragments"
  then have below: "sint i < sint totalFragments" by (simp add: word_sless_alt)
  have "sint totalFragments < 2 ^ 63" using sint_lt [of totalFragments] by simp
  moreover have "- (2 ^ 63) \<le> sint i" using sint_ge [of i] by simp
  ultimately have "sint (i + 1) = sint i + 1"
    using below by (simp add: sint_word_ariths signed_take_bit_int_eq_self)
  then show "((fm, filename, data, totalFragments, i + 1, fragments @ [fragment]),
              (fm, filename, data, totalFragments, i, fragments))
             \<in> measure (\<lambda>(fm, filename, data, totalFragments, i, fragments).
                   nat (sint totalFragments - sint i))"
    using below by simp
qed simp

definition FragmentFile_data :: "FragmentManager \<Rightarrow> string \<Rightarrow> byte list \<Rightarrow> failure + Fragment list" where
  \<comment> \<open>lines 45 to 67: the work on the bytes read. The division panics on a zero divisor,
      \<^verbatim>\<open>make\<close> on a negative capacity.\<close>
  "FragmentFile_data fm filename data =
     (if FragmentSize fm = 0 then Inl (Panic DivideByZero)
      else
        (let totalFragments = quo (len data + FragmentSize fm - 1) (FragmentSize fm)
         in if totalFragments <s 0 then Inl (Panic MakesliceCapOutOfRange)
            else FragmentFile_loop fm filename data totalFragments 0 []))"

definition FragmentFile :: "FragmentManager \<Rightarrow> string \<Rightarrow> os_state \<Rightarrow> failure + Fragment list" where
  "FragmentFile fm filepath os =
     (case os_Open os filepath of
        None \<Rightarrow> Inl (Error ErrorLeyendoArchivo)
      | Some file \<Rightarrow>
          (case io_ReadAll file of
             None \<Rightarrow> Inl (Error ErrorLeyendoDatos)
           | Some data \<Rightarrow> FragmentFile_data fm filepath data))"

subsection \<open>AssembleFile\<close>

text \<open>
  \<^verbatim>\<open>sort.Slice\<close> with the comparison \<^verbatim>\<open>fragments[i].Index < fragments[j].Index\<close> sorts the
  caller's slice in place. It is modelled by insertion sort on the signed value of
  \<open>Index\<close>, which is what the library runs on short slices; the library does not promise
  the order of fragments with equal \<open>Index\<close> on long ones. The slice as the call leaves it
  is the first component of the result of \<open>AssembleFile\<close>.
\<close>

definition sort_Slice :: "Fragment list \<Rightarrow> Fragment list" where
  "sort_Slice fragments = sort_key (\<lambda>f. sint (Index f)) fragments"

fun write_fragments :: "os_state \<Rightarrow> string \<Rightarrow> Fragment list \<Rightarrow> os_state \<times> error option" where
  \<comment> \<open>the loop of lines 93 to 97\<close>
  "write_fragments os path [] = (os, None)"
| "write_fragments os path (fragment # rest) =
     (case file_Write os path (Data fragment) of
        (os', True) \<Rightarrow> (os', Some ErrorEscribiendoFragmento)
      | (os', False) \<Rightarrow> write_fragments os' path rest)"

definition AssembleFile ::
  "FragmentManager \<Rightarrow> Fragment list \<Rightarrow> string \<Rightarrow> os_state
     \<Rightarrow> Fragment list \<times> os_state \<times> error option" where
  "AssembleFile fm fragments outputPath os =
     (if len fragments = 0 then (fragments, os, Some NoHayFragmentos)
      else
        (let sorted = sort_Slice fragments
         in if len sorted \<noteq> TotalFragments (hd sorted)
            then (sorted, os,
                  Some (FragmentosIncompletos (len sorted) (TotalFragments (hd sorted))))
            else
              (case os_Create os outputPath of
                 None \<Rightarrow> (sorted, os, Some ErrorCreandoArchivo)
               | Some os' \<Rightarrow>
                   (case write_fragments os' outputPath sorted of
                      (os'', err) \<Rightarrow> (sorted, os'', err)))))"

subsection \<open>The fragmentation the specification describes\<close>

text \<open>
  The specification's words for Fragment: contiguous windows of \<open>S\<close> bytes in order, the
  last one cut to the bytes that remain; one fragment for each window, with the hash of the
  window, its position as index and the number of windows as total. \<open>FragmentFile\<close> is
  compared with it below.
\<close>

definition window :: "nat \<Rightarrow> 'a list \<Rightarrow> nat \<Rightarrow> 'a list" where
  "window S bytes k = take S (drop (k * S) bytes)"

definition spec_fragment :: "nat \<Rightarrow> string \<Rightarrow> byte list \<Rightarrow> nat \<Rightarrow> nat \<Rightarrow> Fragment" where
  "spec_fragment S filename bytes T k =
     \<lparr>Hash = Sprintf_x (Sum256 (window S bytes k)), Data = window S bytes k,
      Index = of_nat k, TotalFragments = of_nat T, Filename = filename\<rparr>"

definition spec_Fragment :: "nat \<Rightarrow> string \<Rightarrow> byte list \<Rightarrow> Fragment list" where
  "spec_Fragment S filename bytes =
     (let T = (length bytes + S - 1) div S
      in map (spec_fragment S filename bytes T) [0..<T])"

section \<open>main.go\<close>

record FileInfo =
  Filename :: string
  FragmentHashes :: "string list"
  TotalFragments :: go_int

record FragmentRequest =
  Hash :: string

record FragmentResponse =
  Hash :: string
  Data :: "byte list"
  Found :: bool

text \<open>
  The node's own state: the fragment manager and the two maps. The libp2p host and the
  DHT handle are external.
\<close>

record P2PNode =
  FragmentMgr :: FragmentManager
  StoredFragments :: "string \<rightharpoonup> Fragment"
  FileMetadata :: "string \<rightharpoonup> FileInfo"

subsection \<open>handleFragmentRequest\<close>

text \<open>
  The stream is read once and written once. The argument is what \<^verbatim>\<open>decoder.Decode\<close>
  gave (\<open>None\<close> when it returned an error); the result is the response handed to
  \<^verbatim>\<open>encoder.Encode\<close> (\<open>None\<close> when the handler returned before). A nil byte slice is
  the empty list.
\<close>

definition handleFragmentRequest :: "P2PNode \<Rightarrow> FragmentRequest option \<Rightarrow> FragmentResponse option" where
  "handleFragmentRequest n decoded =
     (case decoded of
        None \<Rightarrow> None
      | Some req \<Rightarrow>
          (let response = \<lparr>Hash = FragmentRequest.Hash req, Data = [], Found = False\<rparr>
           in case StoredFragments n (FragmentRequest.Hash req) of
                Some fragment \<Rightarrow>
                  Some (response\<lparr>Data := Fragment.Data fragment, Found := True\<rparr>)
              | None \<Rightarrow> Some response))"

subsection \<open>UploadFile\<close>

text \<open>
  The libraries \<open>UploadFile\<close> calls beyond the file system are parameters: what each call
  returns is left to the caller of the model. \<open>json_Marshal\<close> and \<open>mh_Sum\<close> return \<open>None\<close>
  for an error; \<open>cid_String\<close> is \<^verbatim>\<open>cid.NewCidV1(cid.Raw, hash).String()\<close>; \<open>PutValue\<close>
  takes the state of the DHT, the key and the value, and returns the new state and whether
  it failed.
\<close>

record 'dht libraries =
  json_Marshal :: "FileInfo \<Rightarrow> byte list option"
  mh_Sum :: "byte list \<Rightarrow> byte list option"
  cid_String :: "byte list \<Rightarrow> string"
  PutValue :: "'dht \<Rightarrow> string \<Rightarrow> byte list \<Rightarrow> 'dht \<times> bool"

definition store_fragments :: "Fragment list \<Rightarrow> (string \<rightharpoonup> Fragment) \<Rightarrow> (string \<rightharpoonup> Fragment)" where
  \<comment> \<open>the loop of lines 152 to 155, on the map\<close>
  "store_fragments fragments stored =
     fold (\<lambda>fragment m. m(Fragment.Hash fragment \<mapsto> fragment)) fragments stored"

definition UploadFile ::
  "'dht libraries \<Rightarrow> P2PNode \<Rightarrow> string \<Rightarrow> os_state \<Rightarrow> 'dht
     \<Rightarrow> P2PNode \<times> 'dht \<times> failure option" where
  "UploadFile lib n filepath os dht =
     (case FragmentFile (FragmentMgr n) filepath os of
        Inl err \<Rightarrow> (n, dht, Some err)
      | Inr fragments \<Rightarrow>
          (let filename = filepath;
               fragmentHashes = map Fragment.Hash fragments;
               n1 = n\<lparr>StoredFragments := store_fragments fragments (StoredFragments n)\<rparr>;
               fileInfo = \<lparr>Filename = filename, FragmentHashes = fragmentHashes,
                           TotalFragments = len fragments\<rparr>;
               n2 = n1\<lparr>FileMetadata := (FileMetadata n1)(filename \<mapsto> fileInfo)\<rparr>
           in case json_Marshal lib fileInfo of
                None \<Rightarrow> (n2, dht, Some (Error ErrorCodificandoMetadatos))
              | Some fileInfoBytes \<Rightarrow>
                  (case mh_Sum lib (map of_char filename) of
                     None \<Rightarrow> (n2, dht, Some (Error ErrorGenerandoHash))
                   | Some hash \<Rightarrow>
                       (case PutValue lib dht (cid_String lib hash) fileInfoBytes of
                          (dht', True) \<Rightarrow> (n2, dht', Some (Error ErrorAlmacenandoMetadatos))
                        | (dht', False) \<Rightarrow> (n2, dht', None)))))"

section \<open>Go integers as natural numbers\<close>

lemma sint_of_nat64: "n < 2 ^ 63 \<Longrightarrow> sint (of_nat n :: go_int) = int n"
  by (simp add: signed_of_nat signed_take_bit_int_eq_self)

lemma sless_of_nat64:
  "a < 2 ^ 63 \<Longrightarrow> b < 2 ^ 63 \<Longrightarrow> ((of_nat a :: go_int) <s of_nat b) = (a < b)"
  by (simp add: word_sless_alt sint_of_nat64)

lemma sle_of_nat64:
  "a < 2 ^ 63 \<Longrightarrow> b < 2 ^ 63 \<Longrightarrow> ((of_nat a :: go_int) \<le>s of_nat b) = (a \<le> b)"
  by (simp add: word_sle_eq sint_of_nat64)

lemma ceil_bounds:
  assumes "0 < S" "k < (n + S - 1) div S"
  shows "k * S < (n::nat)"
proof -
  have "Suc k \<le> (n + S - 1) div S" using assms by simp
  then have "Suc k * S \<le> n + S - 1" using assms(1)
    by (simp add: less_eq_div_iff_mult_less_eq)
  then show ?thesis using assms(1) by simp
qed

lemma slice_of_nat64:
  assumes "a \<le> b" "b \<le> length xs" "length xs < 2 ^ 63"
  shows "slice xs (of_nat a) (of_nat b) = Some (take (b - a) (drop a xs))"
proof -
  have "a < 2 ^ 63" "b < 2 ^ 63" using assms by simp_all
  then show ?thesis using assms
    by (simp add: slice_def len_def sle_of_nat64 sint_of_nat64 word_sle_eq)
qed

lemma clamp_of_nat64:
  assumes "n < 2 ^ 63" "e < 2 ^ 63"
  shows "(if (of_nat n :: go_int) <s of_nat e then of_nat n else of_nat e) = (of_nat (min n e) :: go_int)"
  using assms by (simp add: sless_of_nat64 min_def)

lemma slice_chunk:
  assumes "0 < S" "length data + S \<le> 2 ^ 63" "k * S < length data"
  shows "slice data (of_nat k * of_nat S)
           (if len data <s of_nat k * of_nat S + of_nat S then len data
            else of_nat k * of_nat S + of_nat S) = Some (window S data k)"
proof -
  let ?N = "length data"
  have N: "?N < 2 ^ 63" and kS: "k * S < 2 ^ 63" and kSS: "k * S + S < 2 ^ 63"
    using assms by simp_all
  have start: "(of_nat k * of_nat S :: go_int) = of_nat (k * S)" by simp
  have end0: "(of_nat (k * S) + of_nat S :: go_int) = of_nat (k * S + S)" by simp
  have clamp: "(if len data <s of_nat (k * S) + of_nat S then len data
            else of_nat (k * S) + of_nat S) = (of_nat (min ?N (k * S + S)) :: go_int)"
    unfolding end0 len_def by (rule clamp_of_nat64 [OF N kSS])
  have "slice data (of_nat (k * S)) (of_nat (min ?N (k * S + S)))
          = Some (take (min ?N (k * S + S) - k * S) (drop (k * S) data))"
    using assms(3) N by (intro slice_of_nat64) simp_all
  moreover have "take (min ?N (k * S + S) - k * S) (drop (k * S) data) = window S data k"
    by (simp add: window_def min_def)
  ultimately show ?thesis
    unfolding start clamp by (simp only:)
qed

lemma loop_eq:
  assumes "0 < S" "length data + S \<le> 2 ^ 63" "FragmentSize fm = of_nat S"
    and "T = (length data + S - 1) div S" "k \<le> T"
  shows "FragmentFile_loop fm filename data (of_nat T) (of_nat k) acc
           = Inr (acc @ map (spec_fragment S filename data T) [k..<T])"
  using assms(5)
proof (induction "T - k" arbitrary: k acc)
  case 0
  then have "k = T" by simp
  then show ?case by (simp add: word_sless_alt)
next
  case (Suc d)
  then have kT: "k < T" by simp
  have TN: "T \<le> length data"
  proof -
    have "length data \<le> length data * S" using assms(1) by simp
    moreover have "Suc (length data) * S = length data * S + S" by simp
    ultimately have "length data + S - 1 < Suc (length data) * S" using assms(1) by linarith
    then have "(length data + S - 1) div S < Suc (length data)"
      by (rule less_mult_imp_div_less)
    then show ?thesis using assms(4) by simp
  qed
  have T63: "T < 2 ^ 63" "k < 2 ^ 63" using TN kT assms(1,2) by simp_all
  have kS: "k * S < length data" using ceil_bounds [OF assms(1)] kT assms(4) by simp
  have cond: "(of_nat k :: go_int) <s of_nat T" using kT T63 by (simp add: sless_of_nat64)
  have next_i: "(of_nat k + 1 :: go_int) = of_nat (Suc k)" by simp
  have IH: "FragmentFile_loop fm filename data (of_nat T) (of_nat (Suc k))
              (acc @ [spec_fragment S filename data T k])
            = Inr ((acc @ [spec_fragment S filename data T k])
                     @ map (spec_fragment S filename data T) [Suc k..<T])"
    using Suc.hyps(2) kT by (intro Suc.hyps(1)) simp_all
  have "FragmentFile_loop fm filename data (of_nat T) (of_nat k) acc
          = FragmentFile_loop fm filename data (of_nat T) (of_nat k + 1)
              (acc @ [spec_fragment S filename data T k])"
    by (subst FragmentFile_loop.simps)
       (simp only: cond if_True Let_def assms(3) slice_chunk [OF assms(1,2) kS]
          option.case spec_fragment_def)
  also have "\<dots> = Inr (acc @ map (spec_fragment S filename data T) [k..<T])"
    unfolding next_i IH using kT by (simp add: upt_conv_Cons)
  finally show ?case .
qed


lemma FragmentSize_of_nat:
  assumes "0 <s (w :: go_int)"
  shows "w = of_nat (nat (sint w))" "0 < nat (sint w)"
proof -
  have pos: "0 < sint w" using assms by (simp add: word_sless_alt)
  then have "(of_nat (nat (sint w)) :: go_int) = of_int (sint w)" by simp
  then show "w = of_nat (nat (sint w))" by simp
  show "0 < nat (sint w)" using pos by simp
qed

lemma quo_of_nat64:
  assumes "a < 2 ^ 63" "b < 2 ^ 63"
  shows "quo (of_nat a) (of_nat b) = of_nat (a div b)"
proof -
  have "int a sdiv int b = int (a div b)"
    by (cases "a = 0"; cases "b = 0") (simp_all add: signed_divide_int_def zdiv_int)
  then show ?thesis using assms by (simp add: quo_def sint_of_nat64)
qed

lemma total_le_length:
  assumes "0 < S"
  shows "(n + S - 1) div S \<le> (n::nat)"
proof -
  have "n \<le> n * S" using assms by simp
  moreover have "Suc n * S = n * S + S" by simp
  ultimately have "n + S - 1 < Suc n * S" using assms by linarith
  then have "(n + S - 1) div S < Suc n" by (rule less_mult_imp_div_less)
  then show ?thesis by simp
qed

lemma FragmentFile_data_spec:
  assumes "0 <s FragmentSize fm"
    and "int (length data) + sint (FragmentSize fm) \<le> 2 ^ 63"
  shows "FragmentFile_data fm filename data
           = Inr (spec_Fragment (nat (sint (FragmentSize fm))) filename data)"
proof -
  define S where "S = nat (sint (FragmentSize fm))"
  define T where "T = (length data + S - 1) div S"
  have size: "FragmentSize fm = of_nat S" and S: "0 < S"
    using FragmentSize_of_nat [OF assms(1)] by (simp_all add: S_def)
  have NS: "length data + S \<le> 2 ^ 63"
  proof -
    have "int (length data + S) \<le> 2 ^ 63" using assms(2) S by (simp add: S_def)
    then show ?thesis by (metis of_nat_le_iff of_nat_numeral of_nat_power)
  qed
  have nz: "FragmentSize fm \<noteq> 0" using assms(1) by auto
  have "(of_nat (length data) + of_nat S - 1 :: go_int) = of_nat (length data + S - 1)"
    using S by (simp add: of_nat_diff)
  moreover have "S < 2 ^ 63"
    using sint_lt [of "FragmentSize fm"] S by (simp add: S_def)
  moreover have "length data + S - 1 < 2 ^ 63" using NS S by simp
  ultimately have total: "quo (len data + FragmentSize fm - 1) (FragmentSize fm) = of_nat T"
    unfolding size len_def T_def by (simp only: quo_of_nat64)
  have "T \<le> length data" using total_le_length [OF S] by (simp add: T_def)
  then have "T < 2 ^ 63" using NS S by simp
  then have nonneg: "\<not> (of_nat T :: go_int) <s 0"
    by (simp add: word_sless_alt sint_of_nat64)
  have "FragmentFile_loop fm filename data (of_nat T) (of_nat 0) []
          = Inr ([] @ map (spec_fragment S filename data T) [0..<T])"
    by (rule loop_eq [OF S NS size T_def]) simp
  then show ?thesis
    unfolding FragmentFile_data_def total Let_def spec_Fragment_def S_def [symmetric]
      T_def [symmetric]
    using nz nonneg by simp
qed


lemma FragmentFile_spec:
  assumes "nodes os path = Some (RegularFile bytes)"
    and "0 <s FragmentSize fm"
    and "int (length bytes) + sint (FragmentSize fm) \<le> 2 ^ 63"
  shows "FragmentFile fm path os
           = Inr (spec_Fragment (nat (sint (FragmentSize fm))) path bytes)"
  using assms(1) FragmentFile_data_spec [OF assms(2,3)]
  by (simp add: FragmentFile_def os_Open_def io_ReadAll_def)

lemma concat_windows:
  "concat (map (window S xs) [0..<T]) = take (T * S) xs"
proof (induction T)
  case 0
  show ?case by simp
next
  case (Suc T)
  have "take (T * S) xs @ take S (drop (T * S) xs) = take (T * S + S) xs"
    by (simp add: take_add)
  with Suc show ?case by (simp add: window_def add.commute)
qed

lemma total_covers:
  assumes "0 < S"
  shows "(n::nat) \<le> (n + S - 1) div S * S"
proof -
  have "(n + S - 1) div S * S + (n + S - 1) mod S = n + S - 1" by simp
  moreover have "(n + S - 1) mod S < S" using assms by simp
  ultimately show ?thesis by linarith
qed

lemma length_spec_Fragment:
  "length (spec_Fragment S filename bytes) = (length bytes + S - 1) div S"
  by (simp add: spec_Fragment_def Let_def)

lemma concat_spec_Fragment:
  assumes "0 < S"
  shows "concat (map Fragment.Data (spec_Fragment S filename bytes)) = bytes"
proof -
  have "map Fragment.Data (spec_Fragment S filename bytes)
          = map (window S bytes) [0..<(length bytes + S - 1) div S]"
    by (simp add: spec_Fragment_def Let_def spec_fragment_def comp_def)
  then show ?thesis using total_covers [OF assms, of "length bytes"]
    by (simp add: concat_windows)
qed

lemma write_fragments_enough_space:
  assumes "nodes os path = Some (RegularFile c)"
    and "length (concat (map Fragment.Data fragments)) \<le> space os"
  shows "write_fragments os path fragments
           = (os\<lparr>nodes := (nodes os)(path \<mapsto>
                     RegularFile (c @ concat (map Fragment.Data fragments))),
                 space := space os - length (concat (map Fragment.Data fragments))\<rparr>,
              None)"
  using assms
proof (induction fragments arbitrary: os c)
  case Nil
  then have "(nodes os)(path \<mapsto> RegularFile c) = nodes os" by (simp add: map_upd_triv)
  then show ?case by simp
next
  case (Cons f fragments)
  let ?os1 = "os\<lparr>nodes := (nodes os)(path \<mapsto> RegularFile (c @ Fragment.Data f)),
                  space := space os - length (Fragment.Data f)\<rparr>"
  have w: "file_Write os path (Fragment.Data f) = (?os1, False)"
    using Cons.prems by (simp add: file_Write_def contents_def Let_def)
  have "write_fragments ?os1 path fragments
          = (?os1\<lparr>nodes := (nodes ?os1)(path \<mapsto>
                       RegularFile ((c @ Fragment.Data f) @ concat (map Fragment.Data fragments))),
                   space := space ?os1 - length (concat (map Fragment.Data fragments))\<rparr>,
             None)"
    using Cons.prems by (intro Cons.IH) simp_all
  then have step: "write_fragments ?os1 path fragments
          = (os\<lparr>nodes := (nodes os)(path \<mapsto>
                     RegularFile (c @ concat (map Fragment.Data (f # fragments)))),
                 space := space os - length (concat (map Fragment.Data (f # fragments)))\<rparr>,
             None)"
    by simp
  show ?case
    unfolding write_fragments.simps w prod.case bool.case step by (rule refl)
qed

lemma sort_Slice_spec_Fragment:
  assumes "length bytes < 2 ^ 63" "0 < S"
  shows "sort_Slice (spec_Fragment S filename bytes) = spec_Fragment S filename bytes"
proof -
  let ?T = "(length bytes + S - 1) div S"
  have T: "?T < 2 ^ 63" using total_le_length [OF assms(2), of "length bytes"] assms(1) by simp
  have "map (\<lambda>f. sint (Index f)) (spec_Fragment S filename bytes) = map int [0..<?T]"
    using T by (simp add: spec_Fragment_def Let_def spec_fragment_def sint_of_nat64)
  moreover have "sorted (map int [0..<?T])"
    by (simp add: sorted_map sorted_wrt_iff_nth_less)
  ultimately show ?thesis unfolding sort_Slice_def by (intro sort_key_id_if_sorted) simp
qed


lemma AssembleFile_spec_Fragment:
  assumes "bytes \<noteq> []" "0 < S" "length bytes < 2 ^ 63"
    and "nodes os out \<noteq> Some Directory" "length bytes \<le> space os"
  shows "AssembleFile fm (spec_Fragment S filename bytes) out os
           = (spec_Fragment S filename bytes,
              os\<lparr>nodes := (nodes os)(out \<mapsto> RegularFile bytes),
                 space := space os - length bytes\<rparr>,
              None)"
proof -
  let ?fr = "spec_Fragment S filename bytes"
  let ?T = "(length bytes + S - 1) div S"
  let ?os1 = "os\<lparr>nodes := (nodes os)(out \<mapsto> RegularFile [])\<rparr>"
  have len_fr: "length ?fr = ?T" by (rule length_spec_Fragment)
  have T63: "?T < 2 ^ 63"
    using total_le_length [OF assms(2), of "length bytes"] assms(3) by simp
  have Tpos: "0 < ?T"
    using total_covers [OF assms(2), of "length bytes"] assms(1) by (cases "?T = 0") simp_all
  have "sint (len ?fr) = int ?T" using T63 by (simp add: len_def len_fr sint_of_nat64)
  then have nonempty: "len ?fr \<noteq> 0" using Tpos by auto
  have sorted: "sort_Slice ?fr = ?fr" by (rule sort_Slice_spec_Fragment [OF assms(3,2)])
  have "hd ?fr = spec_fragment S filename bytes ?T 0"
    using Tpos by (simp add: spec_Fragment_def Let_def hd_map upt_conv_Cons)
  then have total: "Fragment.TotalFragments (hd ?fr) = len ?fr"
    by (simp add: spec_fragment_def len_def len_fr)
  have create: "os_Create os out = Some ?os1"
    using assms(4) by (simp add: os_Create_def split: option.splits node.splits)
  have data: "concat (map Fragment.Data ?fr) = bytes"
    by (rule concat_spec_Fragment [OF assms(2)])
  have "write_fragments ?os1 out ?fr
          = (?os1\<lparr>nodes := (nodes ?os1)(out \<mapsto>
                      RegularFile ([] @ concat (map Fragment.Data ?fr))),
                  space := space ?os1 - length (concat (map Fragment.Data ?fr))\<rparr>,
             None)"
    using assms(5) by (intro write_fragments_enough_space) (simp_all add: data)
  then have "write_fragments ?os1 out ?fr
          = (os\<lparr>nodes := (nodes os)(out \<mapsto> RegularFile bytes),
                 space := space os - length bytes\<rparr>, None)"
    by (simp add: data)
  then show ?thesis
    unfolding AssembleFile_def Let_def sorted using nonempty total create by simp
qed

lemma last_window_length:
  assumes "0 < S" "0 < (n::nat)"
  shows "n - ((n + S - 1) div S - 1) * S = (if n mod S = 0 then S else n mod S)"
proof (cases "n mod S = 0")
  case True
  then have "S dvd n" by (simp add: dvd_eq_mod_eq_0)
  then obtain q where q: "n = q * S" by (auto simp: dvd_def mult.commute)
  with assms have qpos: "0 < q" by (cases q) simp_all
  have "(q * S + S - 1) div S = q"
  proof -
    show ?thesis using assms(1) by (intro div_nat_eqI) (simp_all add: algebra_simps)
  qed
  then show ?thesis using True q qpos by (simp add: diff_mult_distrib)
next
  case False
  define q r where "q = n div S" and "r = n mod S"
  have n: "n = q * S + r" and r: "0 < r" "r < S"
    using False assms(1) by (simp_all add: q_def r_def)
  have "(n + S - 1) div S = Suc q"
    using n r by (intro div_nat_eqI) (simp_all add: algebra_simps)
  then show ?thesis using False by (simp add: q_def minus_div_mult_eq_mod)
qed

lemma fragment_shape_in_range:
  assumes "0 <s FragmentSize fm"
    and "int (length data) + sint (FragmentSize fm) \<le> 2 ^ 63"
  shows "\<exists>fragments.
           FragmentFile_data fm filename data = Inr fragments \<and>
           length fragments
             = (length data + nat (sint (FragmentSize fm)) - 1) div nat (sint (FragmentSize fm)) \<and>
           (\<forall>k < length fragments.
              Index (fragments ! k) = of_nat k \<and>
              Fragment.TotalFragments (fragments ! k) = len fragments \<and>
              length (Fragment.Data (fragments ! k))
                = (if Suc k < length fragments then nat (sint (FragmentSize fm))
                   else if length data mod nat (sint (FragmentSize fm)) = 0
                        then nat (sint (FragmentSize fm))
                        else length data mod nat (sint (FragmentSize fm))))"
proof -
  define S where "S = nat (sint (FragmentSize fm))"
  define T where "T = (length data + S - 1) div S"
  have S: "0 < S" using assms(1) by (simp add: S_def word_sless_alt)
  have run: "FragmentFile_data fm filename data = Inr (spec_Fragment S filename data)"
    unfolding S_def by (rule FragmentFile_data_spec [OF assms])
  have len_fr: "length (spec_Fragment S filename data) = T"
    by (simp add: length_spec_Fragment T_def)
  have shape: "Index (spec_Fragment S filename data ! k) = of_nat k \<and>
        Fragment.TotalFragments (spec_Fragment S filename data ! k)
          = len (spec_Fragment S filename data) \<and>
        length (Fragment.Data (spec_Fragment S filename data ! k))
          = (if Suc k < T then S else if length data mod S = 0 then S else length data mod S)"
    if k: "k < T" for k
  proof -
    have nth: "spec_Fragment S filename data ! k = spec_fragment S filename data T k"
      using k by (simp add: spec_Fragment_def Let_def T_def)
    have kS: "k * S < length data" using ceil_bounds [OF S] k by (simp add: T_def)
    then have pos: "0 < length data" by (cases data) simp_all
    have "length (window S data k) = (if Suc k < T then S else length data - (T - 1) * S)"
    proof (cases "Suc k < T")
      case True
      then have "Suc k < (length data + S - 1) div S" by (simp only: T_def)
      then have "Suc k * S < length data" by (rule ceil_bounds [OF S])
      then show ?thesis using True by (simp add: window_def)
    next
      case False
      then have kT: "k = T - 1" using k by simp
      have "length data \<le> T * S" using total_covers [OF S] by (simp add: T_def)
      then have "length data - k * S \<le> S" using kT k by (simp add: diff_mult_distrib) 
      then show ?thesis using False kT by (simp add: window_def)
    qed
    moreover have "length data - (T - 1) * S
                     = (if length data mod S = 0 then S else length data mod S)"
      unfolding T_def by (rule last_window_length [OF S pos])
    ultimately show ?thesis
      by (simp add: nth spec_fragment_def len_def len_fr)
  qed
  show ?thesis
    unfolding S_def [symmetric] T_def [symmetric]
    using run len_fr shape by (intro exI [of _ "spec_Fragment S filename data"]) simp
qed

lemma FragmentFile_loop_hash:
  assumes "FragmentFile_loop fm filename data totalFragments i acc = Inr fragments"
    and "\<forall>f \<in> set acc. Fragment.Hash f = Sprintf_x (Sum256 (Fragment.Data f))"
  shows "\<forall>f \<in> set fragments. Fragment.Hash f = Sprintf_x (Sum256 (Fragment.Data f))"
  using assms
proof (induction fm filename data totalFragments i acc rule: FragmentFile_loop.induct)
  case (1 fm filename data totalFragments i acc)
  let ?start = "i * FragmentSize fm"
  let ?end = "if len data <s ?start + FragmentSize fm then len data
              else ?start + FragmentSize fm"
  show ?case
  proof (cases "i <s totalFragments")
    case False
    with "1.prems" show ?thesis by (simp add: FragmentFile_loop.simps [of _ _ _ _ i])
  next
    case True
    have eq: "(case slice data ?start ?end of
                 None \<Rightarrow> Inl (Panic SliceBoundsOutOfRange)
               | Some fragmentData \<Rightarrow>
                   FragmentFile_loop fm filename data totalFragments (i + 1)
                     (acc @ [\<lparr>Fragment.Hash = Sprintf_x (Sum256 fragmentData),
                              Fragment.Data = fragmentData, Index = i,
                              Fragment.TotalFragments = totalFragments,
                              Fragment.Filename = filename\<rparr>])) = Inr fragments"
      using "1.prems"(1) True
      by (subst (asm) FragmentFile_loop.simps) (simp only: if_True Let_def)
    show ?thesis
    proof (cases "slice data ?start ?end")
      case None
      with eq show ?thesis by simp
    next
      case (Some fragmentData)
      let ?fragment = "\<lparr>Fragment.Hash = Sprintf_x (Sum256 fragmentData),
        Fragment.Data = fragmentData, Index = i,
        Fragment.TotalFragments = totalFragments, Fragment.Filename = filename\<rparr>"
      have run: "FragmentFile_loop fm filename data totalFragments (i + 1) (acc @ [?fragment])
              = Inr fragments"
        using eq Some by simp
      have inv: "\<forall>f \<in> set (acc @ [?fragment]).
                       Fragment.Hash f = Sprintf_x (Sum256 (Fragment.Data f))"
        using "1.prems"(2) by simp
      show ?thesis
        by (rule "1.IH" [OF True refl refl refl Some refl refl run inv])
    qed
  qed
qed

section \<open>The shape of a printed digest\<close>

lemma length_be_bytes: "length (be_bytes k n) = k"
  by (induction k n rule: be_bytes.induct) simp_all

lemma length_round256: "length (round256 s kw) = length s"
  by (induction s kw rule: round256.induct) (simp_all add: Let_def)

lemma length_foldl_round256: "length (foldl round256 s kws) = length s"
  by (induction kws arbitrary: s) (simp_all add: length_round256)

lemma length_block256: "length (block256 h blk) = length h"
  by (simp add: block256_def length_foldl_round256)

lemma length_foldl_block256: "length (foldl block256 h blks) = length h"
  by (induction blks arbitrary: h) (simp_all add: length_block256)

lemma length_Sum256: "length (Sum256 m) = 32"
proof -
  have "length (foldl block256 init256 (chunks 64 (pad256 m))) = 8"
    by (simp add: length_foldl_block256 init256_def)
  then show ?thesis
    by (simp add: Sum256_def length_concat comp_def length_be_bytes sum_list_triv)
qed

lemma length_Sprintf_x: "length (Sprintf_x bs) = 2 * length bs"
  by (induction bs) (simp_all add: Sprintf_x_def)

lemma hexdigit_lowercase:
  assumes "n < 16"
  shows "hexdigit n \<in> set ''0123456789abcdef''"
proof -
  have "n < length ''0123456789abcdef''" using assms by simp
  then show ?thesis unfolding hexdigit_def by (rule nth_mem)
qed

lemma set_Sprintf_x: "set (Sprintf_x bs) \<subseteq> set ''0123456789abcdef''"
proof -
  have "hexdigit (unat b div 16) \<in> set ''0123456789abcdef''"
    and "hexdigit (unat b mod 16) \<in> set ''0123456789abcdef''" for b :: byte
  proof -
    have "unat b < 256" using unsigned_less [of b] by simp
    then have "unat b div 16 < 16" by simp
    then show "hexdigit (unat b div 16) \<in> set ''0123456789abcdef''"
      by (rule hexdigit_lowercase)
    show "hexdigit (unat b mod 16) \<in> set ''0123456789abcdef''"
      by (rule hexdigit_lowercase) simp
  qed
  then show ?thesis unfolding Sprintf_x_def by (induction bs) auto
qed

section \<open>SHA-256 on two messages\<close>

text \<open>
  The digests of the three-byte messages \<^verbatim>\<open>abc\<close> (the first example of FIPS 180-4) and
  \<^verbatim>\<open>abd\<close>, computed by rewriting. The two rewriting rules reduce every intermediate word
  modulo \<open>2^32\<close>.
\<close>

lemma be_bytes_pos: "0 < k \<Longrightarrow> be_bytes k n = be_bytes (k - 1) (n div 256) @ [of_nat n]"
  by (cases k) simp_all

lemma replicate_pos: "0 < n \<Longrightarrow> replicate n x = x # replicate (n - 1) x"
  by (cases n) simp_all

lemma schedule_pos:
  "0 < n \<Longrightarrow> schedule n w =
     hd w # schedule (n - 1)
       (tl w @ [of_nat (unat (sigma1 (w ! 14) + w ! 9 + sigma0 (w ! 1) + w ! 0))])"
  by (cases n) simp_all

lemma round256_reduced:
  "round256 [a, b, c, d, e, f, g, h] (k, w) =
     (let t1 = of_nat (unat (h + (rotr32 6 e XOR rotr32 11 e XOR rotr32 25 e)
                 + ((e AND f) XOR (NOT e AND g)) + k + w));
          t2 = of_nat (unat ((rotr32 2 a XOR rotr32 13 a XOR rotr32 22 a)
                 + ((a AND b) XOR (a AND c) XOR (b AND c))))
      in [of_nat (unat (t1 + t2)), a, b, c, of_nat (unat (d + t1)), e, f, g])"
  by (simp add: Let_def)

lemmas sha256_eval =
  Sum256_def pad256_def be_bytes_pos replicate_pos be32_def block256_def
  schedule_pos sigma0_def sigma1_def rotr32_def round256_reduced K256_def init256_def
  Sprintf_x_def hexdigit_def Let_def

lemma sha256_abc:
  "Sprintf_x (Sum256 [0x61, 0x62, 0x63])
     = ''ba7816bf8f01cfea414140de5dae2223b00361a396177a9cb410ff61f20015ad''"
  by (simp add: sha256_eval del: round256.simps)

lemma sha256_abd:
  "Sprintf_x (Sum256 [0x61, 0x62, 0x64])
     = ''a52d159f262b2c6ddb724a61840befc36eb30c88877a4030b65cbe86298449c9''"
  by (simp add: sha256_eval del: round256.simps)

section \<open>AssembleFile and the fields it reads\<close>

lemma map_insort_key:
  assumes "\<And>y. k' (g y) = k y"
  shows "map g (insort_key k x xs) = insort_key k' (g x) (map g xs)"
  by (induction xs) (simp_all add: assms)

lemma map_sort_key:
  assumes "\<And>y. k' (g y) = k y"
  shows "map g (sort_key k xs) = sort_key k' (map g xs)"
  by (induction xs) (simp_all add: map_insort_key [of k' g k, OF assms])

lemma write_fragments_map:
  assumes "\<And>f. Fragment.Data (g f) = Fragment.Data f"
  shows "write_fragments os path (map g fragments) = write_fragments os path fragments"
  by (induction fragments arbitrary: os) (simp_all add: assms split: prod.splits bool.splits)

lemma write_fragments_frame:
  assumes "write_fragments os path fragments = (os', err)" "p \<noteq> path"
  shows "nodes os' p = nodes os p"
  using assms
proof (induction fragments arbitrary: os)
  case Nil
  then show ?case by simp
next
  case (Cons f fragments)
  obtain os1 failed where w: "file_Write os path (Fragment.Data f) = (os1, failed)"
    by (cases "file_Write os path (Fragment.Data f)")
  then have step: "nodes os1 p = nodes os p"
    using Cons.prems(2) by (auto simp: file_Write_def Let_def)
  show ?case
  proof (cases failed)
    case True
    with w Cons.prems(1) step show ?thesis by simp
  next
    case False
    with w Cons.prems(1) have "write_fragments os1 path fragments = (os', err)" by simp
    from Cons.IH [OF this Cons.prems(2)] step show ?thesis by simp
  qed
qed

lemma len_eq_0_iff:
  assumes "length xs < 2 ^ 63"
  shows "len xs = 0 \<longleftrightarrow> xs = []"
proof
  assume "len xs = 0"
  then have "sint (of_nat (length xs) :: go_int) = 0" by (simp add: len_def)
  then show "xs = []" using assms by (simp add: sint_of_nat64)
qed (simp add: len_def)

section \<open>The fragment store after an upload\<close>

lemma store_fragments_snoc:
  "store_fragments (fragments @ [f]) stored
     = (store_fragments fragments stored)(Fragment.Hash f \<mapsto> f)"
  by (simp add: store_fragments_def)

lemma store_fragments_holds_hashes:
  "\<forall>f \<in> set fragments. \<exists>g \<in> set fragments.
      store_fragments fragments stored (Fragment.Hash f) = Some g \<and>
      Fragment.Hash g = Fragment.Hash f"
proof (induction fragments rule: rev_induct)
  case Nil
  show ?case by simp
next
  case (snoc x xs)
  show ?case
  proof
    fix f assume f: "f \<in> set (xs @ [x])"
    show "\<exists>g \<in> set (xs @ [x]).
            store_fragments (xs @ [x]) stored (Fragment.Hash f) = Some g \<and>
            Fragment.Hash g = Fragment.Hash f"
    proof (cases "Fragment.Hash f = Fragment.Hash x")
      case True
      then show ?thesis by (auto simp: store_fragments_snoc)
    next
      case False
      with f have "f \<in> set xs" by auto
      with snoc.IH obtain g where "g \<in> set xs"
        "store_fragments xs stored (Fragment.Hash f) = Some g"
        "Fragment.Hash g = Fragment.Hash f" by blast
      with False show ?thesis by (auto simp: store_fragments_snoc)
    qed
  qed
qed

section \<open>Evaluation on concrete inputs\<close>

lemmas eval_defs =
  FragmentFile_def os_Open_def io_ReadAll_def FragmentFile_data_def quo_def len_def
  signed_divide_int_def slice_def Let_def word_sless_alt word_sle_eq
  AssembleFile_def sort_Slice_def os_Create_def file_Write_def contents_def

section \<open>The claims\<close>

text \<open>
  C1, as amended. For every non-empty file \<open>F\<close> and every fragment size \<open>S > 0\<close> such
  that \<open>len(F) + S - 1\<close> does not exceed the largest \<^verbatim>\<open>int\<close>: when the output path is not a
  directory and the device has room for \<open>F\<close>, \<open>FragmentFile\<close> returns fragments,
  \<open>AssembleFile\<close> on them returns no error, and the output file then holds exactly \<open>F\<close>.
  For the empty file the claim fails: \<open>FragmentFile\<close> returns no fragment and
  \<open>AssembleFile\<close> refuses an empty slice.
\<close>

theorem roundtrip_nonempty:
  assumes "nodes os path = Some (RegularFile F)"
    and "F \<noteq> []"
    and "0 <s FragmentSize fm"
    and "int (length F) + sint (FragmentSize fm) \<le> 2 ^ 63"
    and "nodes os out \<noteq> Some Directory"
    and "length F \<le> space os"
  shows "\<exists>fragments os'.
           FragmentFile fm path os = Inr fragments \<and>
           AssembleFile fm fragments out os = (fragments, os', None) \<and>
           nodes os' out = Some (RegularFile F)"
proof -
  let ?S = "nat (sint (FragmentSize fm))"
  have S: "0 < ?S" using assms(3) by (simp add: word_sless_alt)
  have "0 < sint (FragmentSize fm)" using assms(3) by (simp add: word_sless_alt)
  then have "int (length F) < 2 ^ 63" using assms(4) by linarith
  then have N: "length F < 2 ^ 63" by (metis of_nat_less_iff of_nat_numeral of_nat_power)
  have "FragmentFile fm path os = Inr (spec_Fragment ?S path F)"
    by (rule FragmentFile_spec [OF assms(1,3,4)])
  moreover have "AssembleFile fm (spec_Fragment ?S path F) out os
      = (spec_Fragment ?S path F,
         os\<lparr>nodes := (nodes os)(out \<mapsto> RegularFile F), space := space os - length F\<rparr>,
         None)"
    by (rule AssembleFile_spec_Fragment [OF assms(2) S N assms(5,6)])
  ultimately show ?thesis by simp
qed

theorem roundtrip_nonempty_witness:
  "nodes \<lparr>nodes = [''in'' \<mapsto> RegularFile [1, 2, 3]], space = 3\<rparr> ''in''
      = Some (RegularFile [1, 2, 3]) \<and>
   [1, 2, 3 :: byte] \<noteq> [] \<and>
   0 <s FragmentSize \<lparr>FragmentSize = 2\<rparr> \<and>
   int (length [1, 2, 3 :: byte]) + sint (FragmentSize \<lparr>FragmentSize = 2\<rparr>) \<le> 2 ^ 63 \<and>
   nodes \<lparr>nodes = [''in'' \<mapsto> RegularFile [1, 2, 3]], space = 3\<rparr> ''out'' \<noteq> Some Directory \<and>
   length [1, 2, 3 :: byte] \<le> space \<lparr>nodes = [''in'' \<mapsto> RegularFile [1, 2, 3]], space = 3\<rparr> \<and>
   (\<exists>fragments os'.
      FragmentFile \<lparr>FragmentSize = 2\<rparr> ''in''
        \<lparr>nodes = [''in'' \<mapsto> RegularFile [1, 2, 3]], space = 3\<rparr> = Inr fragments \<and>
      AssembleFile \<lparr>FragmentSize = 2\<rparr> fragments ''out''
        \<lparr>nodes = [''in'' \<mapsto> RegularFile [1, 2, 3]], space = 3\<rparr> = (fragments, os', None) \<and>
      nodes os' ''out'' = Some (RegularFile [1, 2, 3]))"
  using roundtrip_nonempty [of "\<lparr>nodes = [''in'' \<mapsto> RegularFile [1, 2, 3]], space = 3\<rparr>"
      "''in''" "[1, 2, 3]" "\<lparr>FragmentSize = 2\<rparr>" "''out''"]
  by (simp add: word_sless_alt)

theorem roundtrip_empty_file_counterexample:
  "FragmentFile \<lparr>FragmentSize = 1\<rparr> ''in''
     \<lparr>nodes = [''in'' \<mapsto> RegularFile []], space = 8\<rparr> = Inr [] \<and>
   AssembleFile \<lparr>FragmentSize = 1\<rparr> [] ''out''
     \<lparr>nodes = [''in'' \<mapsto> RegularFile []], space = 8\<rparr>
     = ([], \<lparr>nodes = [''in'' \<mapsto> RegularFile []], space = 8\<rparr>, Some NoHayFragmentos)"
  by (simp add: eval_defs)

text \<open>
  C2. Every fragment that \<open>FragmentFile\<close> returns carries as \<open>Hash\<close> the hexadecimal
  printing of the SHA-256 digest of its own \<open>Data\<close>: 64 characters, all of them digits or
  lowercase letters from a to f. This holds for every fragment size and file for which
  \<open>FragmentFile\<close> returns at all.
\<close>

theorem fragment_hash_is_sha256:
  assumes "FragmentFile fm filepath os = Inr fragments"
  shows "\<forall>f \<in> set fragments.
           Fragment.Hash f = Sprintf_x (Sum256 (Fragment.Data f)) \<and>
           length (Fragment.Hash f) = 64 \<and>
           set (Fragment.Hash f) \<subseteq> set ''0123456789abcdef''"
proof -
  obtain data where run: "FragmentFile_data fm filepath data = Inr fragments"
    using assms
    by (auto simp: FragmentFile_def split: option.splits)
  then have loop: "FragmentFile_loop fm filepath data
      (quo (len data + FragmentSize fm - 1) (FragmentSize fm)) 0 [] = Inr fragments"
    by (simp add: FragmentFile_data_def Let_def split: if_splits)
  have "\<forall>f \<in> set fragments. Fragment.Hash f = Sprintf_x (Sum256 (Fragment.Data f))"
    by (rule FragmentFile_loop_hash [OF loop]) simp
  then show ?thesis
    using set_Sprintf_x by (simp add: length_Sprintf_x length_Sum256)
qed

theorem fragment_hash_is_sha256_witness:
  "FragmentFile \<lparr>FragmentSize = 2\<rparr> ''in''
      \<lparr>nodes = [''in'' \<mapsto> RegularFile [1, 2, 3]], space = 3\<rparr>
     = Inr [\<lparr>Fragment.Hash = Sprintf_x (Sum256 [1, 2]), Fragment.Data = [1, 2], Index = 0,
             Fragment.TotalFragments = 2, Fragment.Filename = ''in''\<rparr>,
            \<lparr>Fragment.Hash = Sprintf_x (Sum256 [3]), Fragment.Data = [3], Index = 1,
             Fragment.TotalFragments = 2, Fragment.Filename = ''in''\<rparr>] \<and>
   length (Sprintf_x (Sum256 [1, 2])) = 64 \<and>
   set (Sprintf_x (Sum256 [3])) \<subseteq> set ''0123456789abcdef''"
proof -
  have run: "FragmentFile \<lparr>FragmentSize = 2\<rparr> ''in''
      \<lparr>nodes = [''in'' \<mapsto> RegularFile [1, 2, 3]], space = 3\<rparr>
     = Inr [\<lparr>Fragment.Hash = Sprintf_x (Sum256 [1, 2]), Fragment.Data = [1, 2], Index = 0,
             Fragment.TotalFragments = 2, Fragment.Filename = ''in''\<rparr>,
            \<lparr>Fragment.Hash = Sprintf_x (Sum256 [3]), Fragment.Data = [3], Index = 1,
             Fragment.TotalFragments = 2, Fragment.Filename = ''in''\<rparr>]"
    by (simp add: eval_defs)
  show ?thesis using fragment_hash_is_sha256 [OF run] run by simp
qed

text \<open>
  C3, at an input where the code does not do what the claim says. With \<open>FragmentSize = 2^63 - 1\<close> and a file of
  two bytes, \<open>len(data) + FragmentSize - 1\<close> wraps to \<open>- 2^63\<close>, the quotient is \<open>- 1\<close>, and
  \<^verbatim>\<open>make\<close> panics on the negative capacity: no fragment is produced where the claim asks
  for one. Lemma \<open>fragment_shape_in_range\<close> above gives the claimed count, indices, totals
  and lengths whenever the sum does not wrap.
\<close>

theorem fragment_count_overflow:
  "0 <s FragmentSize \<lparr>FragmentSize = 0x7FFFFFFFFFFFFFFF\<rparr> \<and>
   FragmentFile \<lparr>FragmentSize = 0x7FFFFFFFFFFFFFFF\<rparr> ''in''
     \<lparr>nodes = [''in'' \<mapsto> RegularFile [0, 0]], space = 8\<rparr>
     = Inl (Panic MakesliceCapOutOfRange)"
  by (simp add: eval_defs)

text \<open>
  C4, at an input where the code does not do what the claim says. Fragment 0 of a file of two fragments, given
  twice: the count equals \<open>TotalFragments\<close>, so \<open>AssembleFile\<close> returns no error and writes
  the first fragment's bytes twice, although index 1 is missing and index 0 is repeated.
\<close>

theorem assemble_accepts_duplicate_index:
  "AssembleFile \<lparr>FragmentSize = 1\<rparr>
     [\<lparr>Fragment.Hash = Sprintf_x (Sum256 [7]), Fragment.Data = [7], Index = 0,
       Fragment.TotalFragments = 2, Fragment.Filename = ''in''\<rparr>,
      \<lparr>Fragment.Hash = Sprintf_x (Sum256 [7]), Fragment.Data = [7], Index = 0,
       Fragment.TotalFragments = 2, Fragment.Filename = ''in''\<rparr>]
     ''out'' \<lparr>nodes = Map.empty, space = 8\<rparr>
   = ([\<lparr>Fragment.Hash = Sprintf_x (Sum256 [7]), Fragment.Data = [7], Index = 0,
        Fragment.TotalFragments = 2, Fragment.Filename = ''in''\<rparr>,
       \<lparr>Fragment.Hash = Sprintf_x (Sum256 [7]), Fragment.Data = [7], Index = 0,
        Fragment.TotalFragments = 2, Fragment.Filename = ''in''\<rparr>],
      \<lparr>nodes = [''out'' \<mapsto> RegularFile [7, 7]], space = 6\<rparr>,
      None)"
  by (simp add: eval_defs)

text \<open>
  C5, as amended. \<open>AssembleFile\<close> never reads the \<open>Hash\<close> field and never recomputes a
  digest: replacing the declared hashes of the input by any others changes neither the error
  returned nor the file system afterwards, and the slice left to the caller is the same up
  to those hashes. So a fragment whose data was changed after hashing is treated exactly as
  one whose hash matches. The counterexample is the fragment of the file \<^verbatim>\<open>abc\<close> with its last byte changed: the
  declared hash is not the digest of the data, and \<open>AssembleFile\<close> returns no error.
\<close>

theorem assemble_ignores_hash:
  "AssembleFile fm (map (\<lambda>f. f\<lparr>Fragment.Hash := h f\<rparr>) fragments) outputPath os
     = (case AssembleFile fm fragments outputPath os of
          (fragments', os', err) \<Rightarrow>
            (map (\<lambda>f. f\<lparr>Fragment.Hash := h f\<rparr>) fragments', os', err))"
proof (cases "fragments = []")
  case True
  then show ?thesis by (simp add: AssembleFile_def len_def)
next
  case False
  let ?g = "\<lambda>f. f\<lparr>Fragment.Hash := h f\<rparr>"
  have srt: "sort_Slice (map ?g fragments) = map ?g (sort_Slice fragments)"
    unfolding sort_Slice_def by (rule map_sort_key [symmetric]) simp
  have nonempty: "sort_Slice fragments \<noteq> []"
    using False unfolding sort_Slice_def by (metis length_0_conv length_sort)
  have total: "Fragment.TotalFragments (hd (map ?g (sort_Slice fragments)))
                 = Fragment.TotalFragments (hd (sort_Slice fragments))"
    using nonempty by (simp add: hd_map)
  have wr: "write_fragments os' outputPath (map ?g (sort_Slice fragments))
                 = write_fragments os' outputPath (sort_Slice fragments)" for os'
    by (rule write_fragments_map) simp
  show ?thesis
    unfolding AssembleFile_def Let_def srt total wr
    by (simp add: len_def split: option.splits prod.splits)
qed

theorem assemble_accepts_mutated_data_counterexample:
  "FragmentFile \<lparr>FragmentSize = 262144\<rparr> ''in''
      \<lparr>nodes = [''in'' \<mapsto> RegularFile [0x61, 0x62, 0x63]], space = 8\<rparr>
     = Inr [\<lparr>Fragment.Hash = ''ba7816bf8f01cfea414140de5dae2223b00361a396177a9cb410ff61f20015ad'',
             Fragment.Data = [0x61, 0x62, 0x63], Index = 0, Fragment.TotalFragments = 1,
             Fragment.Filename = ''in''\<rparr>] \<and>
   ''ba7816bf8f01cfea414140de5dae2223b00361a396177a9cb410ff61f20015ad''
     \<noteq> Sprintf_x (Sum256 [0x61, 0x62, 0x64]) \<and>
   AssembleFile \<lparr>FragmentSize = 262144\<rparr>
     [\<lparr>Fragment.Hash = ''ba7816bf8f01cfea414140de5dae2223b00361a396177a9cb410ff61f20015ad'',
       Fragment.Data = [0x61, 0x62, 0x64], Index = 0, Fragment.TotalFragments = 1,
       Fragment.Filename = ''in''\<rparr>]
     ''out'' \<lparr>nodes = [''in'' \<mapsto> RegularFile [0x61, 0x62, 0x63]], space = 8\<rparr>
   = ([\<lparr>Fragment.Hash = ''ba7816bf8f01cfea414140de5dae2223b00361a396177a9cb410ff61f20015ad'',
        Fragment.Data = [0x61, 0x62, 0x64], Index = 0, Fragment.TotalFragments = 1,
        Fragment.Filename = ''in''\<rparr>],
      \<lparr>nodes = [''in'' \<mapsto> RegularFile [0x61, 0x62, 0x63],
                ''out'' \<mapsto> RegularFile [0x61, 0x62, 0x64]], space = 5\<rparr>,
      None)"
  by (simp add: eval_defs sha256_abc sha256_abd)

text \<open>
  C6, as amended. \<open>AssembleFile\<close> has two effects. It sorts the caller's slice in place:
  after the call the slice holds the same fragments, in ascending order of \<open>Index\<close>, which
  is not the caller's order in general. And it creates and writes the output file; no other
  path of the file system changes. The result is a function of the fragments, the output
  path and the file system.
\<close>

theorem assemble_sorts_in_place:
  assumes "AssembleFile fm fragments outputPath os = (fragments', os', err)"
    and "length fragments < 2 ^ 63"
  shows "mset fragments' = mset fragments \<and>
         sorted (map (\<lambda>f. sint (Index f)) fragments') \<and>
         (\<forall>p. p \<noteq> outputPath \<longrightarrow> nodes os' p = nodes os p)"
proof (cases "fragments = []")
  case True
  with assms show ?thesis by (simp add: AssembleFile_def len_def)
next
  case False
  then have nonempty: "len fragments \<noteq> 0" using len_eq_0_iff [OF assms(2)] by simp
  have slice: "fragments' = sort_Slice fragments"
    using assms(1) nonempty
    by (auto simp: AssembleFile_def Let_def split: if_splits option.splits prod.splits)
  have frame: "nodes os' p = nodes os p" if "p \<noteq> outputPath" for p
  proof (cases "os_Create os outputPath")
    case None
    with assms(1) nonempty show ?thesis
      by (auto simp: AssembleFile_def Let_def split: if_splits)
  next
    case (Some os1)
    then have created: "nodes os1 p = nodes os p"
      using that by (auto simp: os_Create_def split: option.splits node.splits)
    show ?thesis
    proof (cases "len (sort_Slice fragments)
                    \<noteq> Fragment.TotalFragments (hd (sort_Slice fragments))")
      case True
      with assms(1) nonempty show ?thesis by (simp add: AssembleFile_def Let_def)
    next
      case False
      with assms(1) nonempty Some
      have "write_fragments os1 outputPath (sort_Slice fragments) = (os', err)"
        by (auto simp: AssembleFile_def Let_def split: prod.splits)
      from write_fragments_frame [OF this that] created show ?thesis by simp
    qed
  qed
  show ?thesis using frame by (simp add: slice sort_Slice_def)
qed

theorem assemble_sorts_in_place_witness:
  "AssembleFile \<lparr>FragmentSize = 1\<rparr>
     [\<lparr>Fragment.Hash = Sprintf_x (Sum256 [9]), Fragment.Data = [9], Index = 1,
       Fragment.TotalFragments = 2, Fragment.Filename = ''in''\<rparr>,
      \<lparr>Fragment.Hash = Sprintf_x (Sum256 [7]), Fragment.Data = [7], Index = 0,
       Fragment.TotalFragments = 2, Fragment.Filename = ''in''\<rparr>]
     ''out'' \<lparr>nodes = [''in'' \<mapsto> RegularFile [7, 9]], space = 8\<rparr>
   = ([\<lparr>Fragment.Hash = Sprintf_x (Sum256 [7]), Fragment.Data = [7], Index = 0,
        Fragment.TotalFragments = 2, Fragment.Filename = ''in''\<rparr>,
       \<lparr>Fragment.Hash = Sprintf_x (Sum256 [9]), Fragment.Data = [9], Index = 1,
        Fragment.TotalFragments = 2, Fragment.Filename = ''in''\<rparr>],
      \<lparr>nodes = [''in'' \<mapsto> RegularFile [7, 9], ''out'' \<mapsto> RegularFile [7, 9]], space = 6\<rparr>,
      None) \<and>
   mset [\<lparr>Fragment.Hash = Sprintf_x (Sum256 [7]), Fragment.Data = [7], Index = 0,
        Fragment.TotalFragments = 2, Fragment.Filename = ''in''\<rparr>,
       \<lparr>Fragment.Hash = Sprintf_x (Sum256 [9]), Fragment.Data = [9], Index = 1,
        Fragment.TotalFragments = 2, Fragment.Filename = ''in''\<rparr>]
     = mset [\<lparr>Fragment.Hash = Sprintf_x (Sum256 [9]), Fragment.Data = [9], Index = 1,
       Fragment.TotalFragments = 2, Fragment.Filename = ''in''\<rparr>,
      \<lparr>Fragment.Hash = Sprintf_x (Sum256 [7]), Fragment.Data = [7], Index = 0,
       Fragment.TotalFragments = 2, Fragment.Filename = ''in''\<rparr>] \<and>
   nodes \<lparr>nodes = [''in'' \<mapsto> RegularFile [7, 9], ''out'' \<mapsto> RegularFile [7, 9]], space = 6\<rparr> ''in''
     = nodes \<lparr>nodes = [''in'' \<mapsto> RegularFile [7, 9]], space = 8\<rparr> ''in''"
proof -
  have run: "AssembleFile \<lparr>FragmentSize = 1\<rparr>
     [\<lparr>Fragment.Hash = Sprintf_x (Sum256 [9]), Fragment.Data = [9], Index = 1,
       Fragment.TotalFragments = 2, Fragment.Filename = ''in''\<rparr>,
      \<lparr>Fragment.Hash = Sprintf_x (Sum256 [7]), Fragment.Data = [7], Index = 0,
       Fragment.TotalFragments = 2, Fragment.Filename = ''in''\<rparr>]
     ''out'' \<lparr>nodes = [''in'' \<mapsto> RegularFile [7, 9]], space = 8\<rparr>
   = ([\<lparr>Fragment.Hash = Sprintf_x (Sum256 [7]), Fragment.Data = [7], Index = 0,
        Fragment.TotalFragments = 2, Fragment.Filename = ''in''\<rparr>,
       \<lparr>Fragment.Hash = Sprintf_x (Sum256 [9]), Fragment.Data = [9], Index = 1,
        Fragment.TotalFragments = 2, Fragment.Filename = ''in''\<rparr>],
      \<lparr>nodes = [''in'' \<mapsto> RegularFile [7, 9], ''out'' \<mapsto> RegularFile [7, 9]], space = 6\<rparr>,
      None)"
    by (simp add: eval_defs)
  show ?thesis using assemble_sorts_in_place [OF run] run by simp
qed

theorem assemble_reorders_caller_slice_counterexample:
  "fst (AssembleFile \<lparr>FragmentSize = 1\<rparr>
     [\<lparr>Fragment.Hash = Sprintf_x (Sum256 [9]), Fragment.Data = [9], Index = 1,
       Fragment.TotalFragments = 2, Fragment.Filename = ''in''\<rparr>,
      \<lparr>Fragment.Hash = Sprintf_x (Sum256 [7]), Fragment.Data = [7], Index = 0,
       Fragment.TotalFragments = 2, Fragment.Filename = ''in''\<rparr>]
     ''out'' \<lparr>nodes = [''in'' \<mapsto> RegularFile [7, 9]], space = 8\<rparr>)
   = [\<lparr>Fragment.Hash = Sprintf_x (Sum256 [7]), Fragment.Data = [7], Index = 0,
        Fragment.TotalFragments = 2, Fragment.Filename = ''in''\<rparr>,
       \<lparr>Fragment.Hash = Sprintf_x (Sum256 [9]), Fragment.Data = [9], Index = 1,
        Fragment.TotalFragments = 2, Fragment.Filename = ''in''\<rparr>] \<and>
   fst (AssembleFile \<lparr>FragmentSize = 1\<rparr>
     [\<lparr>Fragment.Hash = Sprintf_x (Sum256 [9]), Fragment.Data = [9], Index = 1,
       Fragment.TotalFragments = 2, Fragment.Filename = ''in''\<rparr>,
      \<lparr>Fragment.Hash = Sprintf_x (Sum256 [7]), Fragment.Data = [7], Index = 0,
       Fragment.TotalFragments = 2, Fragment.Filename = ''in''\<rparr>]
     ''out'' \<lparr>nodes = [''in'' \<mapsto> RegularFile [7, 9]], space = 8\<rparr>)
   \<noteq> [\<lparr>Fragment.Hash = Sprintf_x (Sum256 [9]), Fragment.Data = [9], Index = 1,
       Fragment.TotalFragments = 2, Fragment.Filename = ''in''\<rparr>,
      \<lparr>Fragment.Hash = Sprintf_x (Sum256 [7]), Fragment.Data = [7], Index = 0,
       Fragment.TotalFragments = 2, Fragment.Filename = ''in''\<rparr>]"
  by (simp add: eval_defs)

text \<open>
  C7. For every request the handler decodes: when the requested hash is a key of
  \<open>StoredFragments\<close>, the response repeats the hash, has \<open>Found\<close> true and carries the bytes
  of the stored fragment; when it is not, the response repeats the hash, has \<open>Found\<close>
  false and no data.
\<close>

theorem handler_answers_from_store:
  "(StoredFragments n (FragmentRequest.Hash req) = Some fragment \<longrightarrow>
      handleFragmentRequest n (Some req)
        = Some \<lparr>Hash = FragmentRequest.Hash req, Data = Fragment.Data fragment, Found = True\<rparr>) \<and>
   (StoredFragments n (FragmentRequest.Hash req) = None \<longrightarrow>
      handleFragmentRequest n (Some req)
        = Some \<lparr>Hash = FragmentRequest.Hash req, Data = [], Found = False\<rparr>)"
  by (simp add: handleFragmentRequest_def)

theorem handler_answers_from_store_witness:
  "StoredFragments
      \<lparr>FragmentMgr = \<lparr>FragmentSize = 262144\<rparr>,
       StoredFragments = [''ab'' \<mapsto> \<lparr>Fragment.Hash = ''ab'', Fragment.Data = [7, 9], Index = 0,
           Fragment.TotalFragments = 1, Fragment.Filename = ''in''\<rparr>],
       FileMetadata = Map.empty\<rparr> ''ab''
     = Some \<lparr>Fragment.Hash = ''ab'', Fragment.Data = [7, 9], Index = 0,
           Fragment.TotalFragments = 1, Fragment.Filename = ''in''\<rparr> \<and>
   handleFragmentRequest
      \<lparr>FragmentMgr = \<lparr>FragmentSize = 262144\<rparr>,
       StoredFragments = [''ab'' \<mapsto> \<lparr>Fragment.Hash = ''ab'', Fragment.Data = [7, 9], Index = 0,
           Fragment.TotalFragments = 1, Fragment.Filename = ''in''\<rparr>],
       FileMetadata = Map.empty\<rparr> (Some \<lparr>FragmentRequest.Hash = ''ab''\<rparr>)
     = Some \<lparr>Hash = ''ab'', Data = [7, 9], Found = True\<rparr> \<and>
   StoredFragments
      \<lparr>FragmentMgr = \<lparr>FragmentSize = 262144\<rparr>,
       StoredFragments = [''ab'' \<mapsto> \<lparr>Fragment.Hash = ''ab'', Fragment.Data = [7, 9], Index = 0,
           Fragment.TotalFragments = 1, Fragment.Filename = ''in''\<rparr>],
       FileMetadata = Map.empty\<rparr> ''cd'' = None \<and>
   handleFragmentRequest
      \<lparr>FragmentMgr = \<lparr>FragmentSize = 262144\<rparr>,
       StoredFragments = [''ab'' \<mapsto> \<lparr>Fragment.Hash = ''ab'', Fragment.Data = [7, 9], Index = 0,
           Fragment.TotalFragments = 1, Fragment.Filename = ''in''\<rparr>],
       FileMetadata = Map.empty\<rparr> (Some \<lparr>FragmentRequest.Hash = ''cd''\<rparr>)
     = Some \<lparr>Hash = ''cd'', Data = [], Found = False\<rparr>"
  using handler_answers_from_store
      [of "\<lparr>FragmentMgr = \<lparr>FragmentSize = 262144\<rparr>,
       StoredFragments = [''ab'' \<mapsto> \<lparr>Fragment.Hash = ''ab'', Fragment.Data = [7, 9], Index = 0,
           Fragment.TotalFragments = 1, Fragment.Filename = ''in''\<rparr>],
       FileMetadata = Map.empty\<rparr>" "\<lparr>FragmentRequest.Hash = ''ab''\<rparr>"
       "\<lparr>Fragment.Hash = ''ab'', Fragment.Data = [7, 9], Index = 0,
           Fragment.TotalFragments = 1, Fragment.Filename = ''in''\<rparr>"]
    handler_answers_from_store
      [of "\<lparr>FragmentMgr = \<lparr>FragmentSize = 262144\<rparr>,
       StoredFragments = [''ab'' \<mapsto> \<lparr>Fragment.Hash = ''ab'', Fragment.Data = [7, 9], Index = 0,
           Fragment.TotalFragments = 1, Fragment.Filename = ''in''\<rparr>],
       FileMetadata = Map.empty\<rparr>" "\<lparr>FragmentRequest.Hash = ''cd''\<rparr>"]
  by simp

text \<open>
  C8. Whatever the libraries return: when \<open>UploadFile\<close> returns no error, the file was
  fragmented, the hash of every fragment is a key of the fragment store (bound to a fragment
  of the file with that hash), the catalog holds the file's \<open>FileInfo\<close>, and \<open>PutValue\<close>
  returned no error. When \<open>PutValue\<close> fails after fragmentation, \<open>UploadFile\<close> returns the
  error \<^verbatim>\<open>error almacenando metadatos del archivo\<close>, and the store and the catalog still
  hold those entries.
\<close>

theorem upload_success_needs_publication:
  "(UploadFile lib n filepath os dht = (n', dht', None) \<longrightarrow>
      (\<exists>fragments fileInfoBytes hash.
         FragmentFile (FragmentMgr n) filepath os = Inr fragments \<and>
         (\<forall>f \<in> set fragments. \<exists>g \<in> set fragments.
             StoredFragments n' (Fragment.Hash f) = Some g \<and>
             Fragment.Hash g = Fragment.Hash f) \<and>
         FileMetadata n' filepath
           = Some \<lparr>Filename = filepath, FragmentHashes = map Fragment.Hash fragments,
                   TotalFragments = len fragments\<rparr> \<and>
         json_Marshal lib \<lparr>Filename = filepath, FragmentHashes = map Fragment.Hash fragments,
                   TotalFragments = len fragments\<rparr> = Some fileInfoBytes \<and>
         mh_Sum lib (map of_char filepath) = Some hash \<and>
         PutValue lib dht (cid_String lib hash) fileInfoBytes = (dht', False))) \<and>
   (FragmentFile (FragmentMgr n) filepath os = Inr fragments \<and>
    json_Marshal lib \<lparr>Filename = filepath, FragmentHashes = map Fragment.Hash fragments,
                   TotalFragments = len fragments\<rparr> = Some fileInfoBytes \<and>
    mh_Sum lib (map of_char filepath) = Some hash \<and>
    PutValue lib dht (cid_String lib hash) fileInfoBytes = (dht1, True) \<longrightarrow>
      (\<exists>n1. UploadFile lib n filepath os dht
               = (n1, dht1, Some (Error ErrorAlmacenandoMetadatos)) \<and>
         (\<forall>f \<in> set fragments. \<exists>g \<in> set fragments.
             StoredFragments n1 (Fragment.Hash f) = Some g \<and>
             Fragment.Hash g = Fragment.Hash f) \<and>
         FileMetadata n1 filepath
           = Some \<lparr>Filename = filepath, FragmentHashes = map Fragment.Hash fragments,
                   TotalFragments = len fragments\<rparr>))"
proof (intro conjI impI)
  assume ok: "UploadFile lib n filepath os dht = (n', dht', None)"
  then obtain fragments where fr: "FragmentFile (FragmentMgr n) filepath os = Inr fragments"
    by (cases "FragmentFile (FragmentMgr n) filepath os") (auto simp: UploadFile_def)
  let ?info = "\<lparr>Filename = filepath, FragmentHashes = map Fragment.Hash fragments,
                   TotalFragments = len fragments\<rparr>"
  from ok fr obtain fileInfoBytes where js: "json_Marshal lib ?info = Some fileInfoBytes"
    by (cases "json_Marshal lib ?info") (auto simp: UploadFile_def Let_def)
  from ok fr js obtain hash where mh: "mh_Sum lib (map of_char filepath) = Some hash"
    by (cases "mh_Sum lib (map of_char filepath)") (auto simp: UploadFile_def Let_def)
  from ok fr js mh have put: "PutValue lib dht (cid_String lib hash) fileInfoBytes = (dht', False)"
    and n': "n' = n\<lparr>StoredFragments := store_fragments fragments (StoredFragments n),
                    FileMetadata := (FileMetadata n)(filepath \<mapsto> ?info)\<rparr>"
    by (auto simp: UploadFile_def Let_def split: prod.splits bool.splits)
  show "\<exists>fragments fileInfoBytes hash.
         FragmentFile (FragmentMgr n) filepath os = Inr fragments \<and>
         (\<forall>f \<in> set fragments. \<exists>g \<in> set fragments.
             StoredFragments n' (Fragment.Hash f) = Some g \<and>
             Fragment.Hash g = Fragment.Hash f) \<and>
         FileMetadata n' filepath
           = Some \<lparr>Filename = filepath, FragmentHashes = map Fragment.Hash fragments,
                   TotalFragments = len fragments\<rparr> \<and>
         json_Marshal lib \<lparr>Filename = filepath, FragmentHashes = map Fragment.Hash fragments,
                   TotalFragments = len fragments\<rparr> = Some fileInfoBytes \<and>
         mh_Sum lib (map of_char filepath) = Some hash \<and>
         PutValue lib dht (cid_String lib hash) fileInfoBytes = (dht', False)"
    using fr js mh put store_fragments_holds_hashes [of fragments "StoredFragments n"]
    by (intro exI [of _ fragments] exI [of _ fileInfoBytes] exI [of _ hash]) (simp add: n')
next
  let ?info = "\<lparr>Filename = filepath, FragmentHashes = map Fragment.Hash fragments,
                   TotalFragments = len fragments\<rparr>"
  let ?n1 = "n\<lparr>StoredFragments := store_fragments fragments (StoredFragments n),
                    FileMetadata := (FileMetadata n)(filepath \<mapsto> ?info)\<rparr>"
  assume h: "FragmentFile (FragmentMgr n) filepath os = Inr fragments \<and>
    json_Marshal lib ?info = Some fileInfoBytes \<and>
    mh_Sum lib (map of_char filepath) = Some hash \<and>
    PutValue lib dht (cid_String lib hash) fileInfoBytes = (dht1, True)"
  then have "UploadFile lib n filepath os dht
               = (?n1, dht1, Some (Error ErrorAlmacenandoMetadatos))"
    by (simp add: UploadFile_def Let_def)
  then show "\<exists>n1. UploadFile lib n filepath os dht
               = (n1, dht1, Some (Error ErrorAlmacenandoMetadatos)) \<and>
         (\<forall>f \<in> set fragments. \<exists>g \<in> set fragments.
             StoredFragments n1 (Fragment.Hash f) = Some g \<and>
             Fragment.Hash g = Fragment.Hash f) \<and>
         FileMetadata n1 filepath = Some ?info"
    using store_fragments_holds_hashes [of fragments "StoredFragments n"]
    by (intro exI [of _ ?n1]) simp
qed

theorem upload_success_needs_publication_witness:
  "UploadFile
     \<lparr>json_Marshal = (\<lambda>info. Some (map of_char (Filename info))),
      mh_Sum = (\<lambda>bs. Some (Sum256 bs)), cid_String = Sprintf_x,
      PutValue = (\<lambda>d k v. (d @ [(k, v)], False))\<rparr>
     \<lparr>FragmentMgr = \<lparr>FragmentSize = 4\<rparr>, StoredFragments = Map.empty,
      FileMetadata = Map.empty\<rparr>
     ''in'' \<lparr>nodes = [''in'' \<mapsto> RegularFile [7, 9]], space = 0\<rparr> []
   = (\<lparr>FragmentMgr = \<lparr>FragmentSize = 4\<rparr>,
       StoredFragments = [Sprintf_x (Sum256 [7, 9]) \<mapsto>
          \<lparr>Fragment.Hash = Sprintf_x (Sum256 [7, 9]), Fragment.Data = [7, 9], Index = 0,
           Fragment.TotalFragments = 1, Fragment.Filename = ''in''\<rparr>],
       FileMetadata = [''in'' \<mapsto>
          \<lparr>Filename = ''in'', FragmentHashes = [Sprintf_x (Sum256 [7, 9])],
           TotalFragments = 1\<rparr>]\<rparr>,
      [(Sprintf_x (Sum256 [105, 110]), [105, 110])],
      None) \<and>
   UploadFile
     \<lparr>json_Marshal = (\<lambda>info. Some (map of_char (Filename info))),
      mh_Sum = (\<lambda>bs. Some (Sum256 bs)), cid_String = Sprintf_x,
      PutValue = (\<lambda>d k v. (d @ [(k, v)], True))\<rparr>
     \<lparr>FragmentMgr = \<lparr>FragmentSize = 4\<rparr>, StoredFragments = Map.empty,
      FileMetadata = Map.empty\<rparr>
     ''in'' \<lparr>nodes = [''in'' \<mapsto> RegularFile [7, 9]], space = 0\<rparr> []
   = (\<lparr>FragmentMgr = \<lparr>FragmentSize = 4\<rparr>,
       StoredFragments = [Sprintf_x (Sum256 [7, 9]) \<mapsto>
          \<lparr>Fragment.Hash = Sprintf_x (Sum256 [7, 9]), Fragment.Data = [7, 9], Index = 0,
           Fragment.TotalFragments = 1, Fragment.Filename = ''in''\<rparr>],
       FileMetadata = [''in'' \<mapsto>
          \<lparr>Filename = ''in'', FragmentHashes = [Sprintf_x (Sum256 [7, 9])],
           TotalFragments = 1\<rparr>]\<rparr>,
      [(Sprintf_x (Sum256 [105, 110]), [105, 110])],
      Some (Error ErrorAlmacenandoMetadatos))"
proof -
  have run: "FragmentFile \<lparr>FragmentSize = 4\<rparr> ''in''
      \<lparr>nodes = [''in'' \<mapsto> RegularFile [7, 9]], space = 0\<rparr>
     = Inr [\<lparr>Fragment.Hash = Sprintf_x (Sum256 [7, 9]), Fragment.Data = [7, 9], Index = 0,
             Fragment.TotalFragments = 1, Fragment.Filename = ''in''\<rparr>]"
    by (simp add: eval_defs)
  show ?thesis
    using upload_success_needs_publication
      [of "\<lparr>json_Marshal = (\<lambda>info. Some (map of_char (Filename info))),
            mh_Sum = (\<lambda>bs. Some (Sum256 bs)), cid_String = Sprintf_x,
            PutValue = (\<lambda>d k v. (d @ [(k, v)], True))\<rparr>"
          "\<lparr>FragmentMgr = \<lparr>FragmentSize = 4\<rparr>, StoredFragments = Map.empty,
            FileMetadata = Map.empty\<rparr>"
          "''in''" "\<lparr>nodes = [''in'' \<mapsto> RegularFile [7, 9]], space = 0\<rparr>" "[]"
          _ _ _ "[105, 110]" "Sum256 [105, 110]"
          "[(Sprintf_x (Sum256 [105, 110]), [105, 110])]"]
      upload_success_needs_publication
      [of "\<lparr>json_Marshal = (\<lambda>info. Some (map of_char (Filename info))),
            mh_Sum = (\<lambda>bs. Some (Sum256 bs)), cid_String = Sprintf_x,
            PutValue = (\<lambda>d k v. (d @ [(k, v)], False))\<rparr>"
          "\<lparr>FragmentMgr = \<lparr>FragmentSize = 4\<rparr>, StoredFragments = Map.empty,
            FileMetadata = Map.empty\<rparr>"
          "''in''" "\<lparr>nodes = [''in'' \<mapsto> RegularFile [7, 9]], space = 0\<rparr>" "[]"]
    by (simp add: run UploadFile_def store_fragments_def len_def Let_def)
qed

text \<open>
  C9. For every fragment size \<open>S > 0\<close>, \<open>FragmentFile\<close> on a file of zero bytes returns
  the empty slice of fragments and no error.
\<close>

theorem empty_file_no_fragments:
  assumes "nodes os filepath = Some (RegularFile [])"
    and "0 <s FragmentSize fm"
  shows "FragmentFile fm filepath os = Inr []"
proof -
  have "int (length ([] :: byte list)) + sint (FragmentSize fm) \<le> 2 ^ 63"
    using sint_lt [of "FragmentSize fm"] by simp
  then have "FragmentFile fm filepath os
               = Inr (spec_Fragment (nat (sint (FragmentSize fm))) filepath [])"
    by (rule FragmentFile_spec [OF assms])
  moreover have "0 < nat (sint (FragmentSize fm))"
    using assms(2) by (simp add: word_sless_alt)
  ultimately show ?thesis by (simp add: spec_Fragment_def)
qed

theorem empty_file_no_fragments_witness:
  "nodes \<lparr>nodes = [''in'' \<mapsto> RegularFile []], space = 8\<rparr> ''in'' = Some (RegularFile []) \<and>
   0 <s FragmentSize \<lparr>FragmentSize = 262144\<rparr> \<and>
   FragmentFile \<lparr>FragmentSize = 262144\<rparr> ''in''
     \<lparr>nodes = [''in'' \<mapsto> RegularFile []], space = 8\<rparr> = Inr []"
  using empty_file_no_fragments [of "\<lparr>nodes = [''in'' \<mapsto> RegularFile []], space = 8\<rparr>"
      "''in''" "\<lparr>FragmentSize = 262144\<rparr>"]
  by (simp add: word_sless_alt)

text \<open>
  C10. \<open>AssembleFile\<close> on the empty slice returns the error \<^verbatim>\<open>no hay fragmentos para ensamblar\<close>
  and leaves the file system as it was; so fragmenting a zero-byte file with any size
  \<open>S > 0\<close> and assembling the result ends in that error, with nothing written.
\<close>

theorem assemble_empty_fails:
  "AssembleFile fm [] outputPath os = ([], os, Some NoHayFragmentos) \<and>
   (nodes os filepath = Some (RegularFile []) \<and> 0 <s FragmentSize fm \<longrightarrow>
      (\<exists>fragments. FragmentFile fm filepath os = Inr fragments \<and>
         AssembleFile fm fragments outputPath os = (fragments, os, Some NoHayFragmentos)))"
proof -
  have empty: "AssembleFile fm [] outputPath os = ([], os, Some NoHayFragmentos)"
    by (simp add: AssembleFile_def len_def)
  have "FragmentFile fm filepath os = Inr []"
    if "nodes os filepath = Some (RegularFile [])" "0 <s FragmentSize fm"
  proof -
    have "int (length ([] :: byte list)) + sint (FragmentSize fm) \<le> 2 ^ 63"
      using sint_lt [of "FragmentSize fm"] by simp
    then have "FragmentFile fm filepath os
                 = Inr (spec_Fragment (nat (sint (FragmentSize fm))) filepath [])"
      by (rule FragmentFile_spec [OF that])
    moreover have "0 < nat (sint (FragmentSize fm))"
      using that(2) by (simp add: word_sless_alt)
    ultimately show ?thesis by (simp add: spec_Fragment_def)
  qed
  with empty show ?thesis by auto
qed

theorem assemble_empty_fails_witness:
  "AssembleFile \<lparr>FragmentSize = 4\<rparr> [] ''out''
      \<lparr>nodes = [''in'' \<mapsto> RegularFile []], space = 8\<rparr>
     = ([], \<lparr>nodes = [''in'' \<mapsto> RegularFile []], space = 8\<rparr>, Some NoHayFragmentos) \<and>
   nodes \<lparr>nodes = [''in'' \<mapsto> RegularFile []], space = 8\<rparr> ''in'' = Some (RegularFile []) \<and>
   0 <s FragmentSize \<lparr>FragmentSize = 4\<rparr> \<and>
   (\<exists>fragments. FragmentFile \<lparr>FragmentSize = 4\<rparr> ''in''
        \<lparr>nodes = [''in'' \<mapsto> RegularFile []], space = 8\<rparr> = Inr fragments \<and>
      AssembleFile \<lparr>FragmentSize = 4\<rparr> fragments ''out''
        \<lparr>nodes = [''in'' \<mapsto> RegularFile []], space = 8\<rparr>
        = (fragments, \<lparr>nodes = [''in'' \<mapsto> RegularFile []], space = 8\<rparr>,
           Some NoHayFragmentos))"
  using assemble_empty_fails [of "\<lparr>FragmentSize = 4\<rparr>" "''out''"
      "\<lparr>nodes = [''in'' \<mapsto> RegularFile []], space = 8\<rparr>" "''in''"]
  by (simp add: word_sless_alt)

end
